theory Spec2Isabelle
  imports Complex_Main "HOL-Library.Word"
begin

unbundle bit_operations_syntax

section \<open>The Yarrow generator of yarrow.py\<close>

text \<open>
  A shallow embedding of class \<open>Yarrow\<close>. Byte strings are lists of 8-bit words, Python
  integers are \<open>int\<close>, the readings of \<open>time.time()\<close> are reals (the rounding of the
  floating-point subtraction is not modelled). What the methods take from outside is
  passed in: the clock readings, the result of \<open>os.urandom(32)\<close>, and the hash function
  \<open>hashlib.sha256\<close>, a parameter that maps a byte string to a 256-bit value.
\<close>

type_synonym byte = "8 word"

type_synonym sha256_fn = "byte list \<Rightarrow> 256 word"

text \<open>\<open>hashlib.sha256(m).digest()\<close>: the 256-bit hash value as 32 bytes, big-endian.\<close>

definition digest :: "256 word \<Rightarrow> byte list" where
  "digest h = map (\<lambda>i. ucast (drop_bit (8 * (31 - i)) h)) [0..<32]"

subsection \<open>Outcomes of a call\<close>

text \<open>
  A call returns a value, raises, or never returns: \<open>threading.Lock\<close> is not reentrant,
  so acquiring it while it is held blocks for ever.
\<close>

datatype error = ZeroDivisionError

datatype 'a outcome = Returned 'a | Raised error | Blocked

subsection \<open>Python slices\<close>

text \<open>\<open>xs[i:]\<close> and \<open>xs[:n]\<close>: a negative index counts from the end, and both clamp.\<close>

definition slice_from :: "int \<Rightarrow> 'a list \<Rightarrow> 'a list" where
  "slice_from i xs = (if i < 0 then drop (nat (int (length xs) + i)) xs else drop (nat i) xs)"

definition slice_to :: "int \<Rightarrow> 'a list \<Rightarrow> 'a list" where
  "slice_to n xs = (if n < 0 then take (nat (int (length xs) + n)) xs else take (nat n) xs)"

subsection \<open>The state\<close>

record yarrow =
  entropy_pool :: "byte list"
  seed :: "byte list"
  reseed_interval :: int
  max_pool_size :: int
  last_reseed_time :: real
  lock_held :: bool

text \<open>\<open>__init__(reseed_interval, max_pool_size)\<close>, with the reading of the clock.\<close>

definition Yarrow_init :: "int \<Rightarrow> int \<Rightarrow> real \<Rightarrow> yarrow" where
  "Yarrow_init ri mps now =
     \<lparr>entropy_pool = [], seed = [], reseed_interval = ri, max_pool_size = mps,
      last_reseed_time = now, lock_held = False\<rparr>"

definition default_reseed_interval :: int where
  "default_reseed_interval = 10000"

definition default_max_pool_size :: int where
  "default_max_pool_size = 4096"

text \<open>\<open>with self.lock: body\<close>.\<close>

definition with_lock :: "(yarrow \<Rightarrow> yarrow outcome) \<Rightarrow> yarrow \<Rightarrow> yarrow outcome" where
  "with_lock body s =
     (if lock_held s then Blocked
      else (case body (s\<lparr>lock_held := True\<rparr>) of
              Returned s' \<Rightarrow> Returned (s'\<lparr>lock_held := False\<rparr>)
            | Raised e \<Rightarrow> Raised e
            | Blocked \<Rightarrow> Blocked))"

subsection \<open>The entropy pool\<close>

text \<open>The body of \<open>add_entropy\<close> under the lock (lines 30 to 35).\<close>

definition add_entropy_body :: "byte list \<Rightarrow> yarrow \<Rightarrow> yarrow outcome" where
  "add_entropy_body data s =
     (if data \<noteq> [] then
        (let pool = entropy_pool s @ data
         in Returned (s\<lparr>entropy_pool :=
              (if int (length pool) > max_pool_size s
               then slice_from (- max_pool_size s) pool else pool)\<rparr>))
      else Returned s)"

definition add_entropy :: "yarrow \<Rightarrow> byte list \<Rightarrow> yarrow outcome" where
  "add_entropy s data = with_lock (add_entropy_body data) s"

text \<open>\<open>add_entropy_sources\<close>: one \<open>add_entropy\<close> per source, in order.\<close>

fun add_entropy_sources :: "yarrow \<Rightarrow> byte list list \<Rightarrow> yarrow outcome" where
  "add_entropy_sources s [] = Returned s"
| "add_entropy_sources s (source # sources) =
     (case add_entropy s source of
        Returned s' \<Rightarrow> add_entropy_sources s' sources
      | Raised e \<Rightarrow> Raised e
      | Blocked \<Rightarrow> Blocked)"

text \<open>The last \<open>m\<close> elements of a list (all of it when it is shorter).\<close>

definition most_recent :: "nat \<Rightarrow> 'a list \<Rightarrow> 'a list" where
  "most_recent m xs = drop (length xs - m) xs"

subsection \<open>Seed and reseed\<close>

definition generate_seed :: "sha256_fn \<Rightarrow> yarrow \<Rightarrow> yarrow outcome" where
  "generate_seed H s = with_lock (\<lambda>t. Returned (t\<lparr>seed := digest (H (entropy_pool t))\<rparr>)) s"

text \<open>The two branches of the condition of line 74, and the condition.\<close>

definition byte_branch :: "yarrow \<Rightarrow> bool" where
  "byte_branch s = (int (length (seed s)) \<ge> reseed_interval s)"

definition time_branch :: "yarrow \<Rightarrow> real \<Rightarrow> bool" where
  "time_branch s now = (now - last_reseed_time s \<ge> real_of_int (reseed_interval s))"

definition reseed_due :: "yarrow \<Rightarrow> real \<Rightarrow> bool" where
  "reseed_due s now = (byte_branch s \<or> time_branch s now)"

text \<open>
  \<open>reseed\<close>: \<open>now\<close> is the clock at line 74, \<open>now'\<close> the clock at line 76.
  \<open>generate_seed\<close> is called with the lock held.
\<close>

definition reseed_body :: "sha256_fn \<Rightarrow> real \<Rightarrow> real \<Rightarrow> yarrow \<Rightarrow> yarrow outcome" where
  "reseed_body H now now' s =
     (if reseed_due s now then
        (case generate_seed H s of
           Returned s' \<Rightarrow> Returned (s'\<lparr>last_reseed_time := now'\<rparr>)
         | Raised e \<Rightarrow> Raised e
         | Blocked \<Rightarrow> Blocked)
      else Returned s)"

definition reseed :: "sha256_fn \<Rightarrow> yarrow \<Rightarrow> real \<Rightarrow> real \<Rightarrow> yarrow outcome" where
  "reseed H s now now' = with_lock (reseed_body H now now') s"

subsection \<open>Output\<close>

text \<open>The loop of lines 87 to 89.\<close>

function keystream :: "sha256_fn \<Rightarrow> byte list \<Rightarrow> byte list \<Rightarrow> int \<Rightarrow> byte list" where
  "keystream H prng random_bytes n =
     (if int (length random_bytes) < n then
        (let prng' = digest (H prng) in keystream H prng' (random_bytes @ prng') n)
      else random_bytes)"
  by pat_completeness auto
termination
  by (relation "measure (\<lambda>(H, prng, random_bytes, n). nat (n - int (length random_bytes)))")
     (auto simp: digest_def)

declare keystream.simps [simp del]

text \<open>
  \<open>generate_random_bytes(n)\<close>: \<open>urandom\<close> is what \<open>os.urandom(32)\<close> returns at line 85.
  The result is the new state and the bytes.
\<close>

definition generate_random_bytes ::
  "sha256_fn \<Rightarrow> yarrow \<Rightarrow> real \<Rightarrow> real \<Rightarrow> byte list \<Rightarrow> int \<Rightarrow> (yarrow \<times> byte list) outcome" where
  "generate_random_bytes H s now now' urandom n =
     (case reseed H s now now' of
        Returned s' \<Rightarrow> Returned (s', slice_to n (keystream H urandom [] n))
      | Raised e \<Rightarrow> Raised e
      | Blocked \<Rightarrow> Blocked)"

text \<open>\<open>int.bit_length\<close>: the number of bits of the absolute value.\<close>

fun bit_length_nat :: "nat \<Rightarrow> nat" where
  "bit_length_nat n = (if n = 0 then 0 else Suc (bit_length_nat (n div 2)))"

definition bit_length :: "int \<Rightarrow> int" where
  "bit_length x = int (bit_length_nat (nat \<bar>x\<bar>))"

text \<open>\<open>int.from_bytes(data, byteorder='big')\<close>.\<close>

definition from_bytes_big :: "byte list \<Rightarrow> int" where
  "from_bytes_big data = foldl (\<lambda>acc b. acc * 256 + uint b) 0 data"

text \<open>Lines 121 and 122.\<close>

definition range_size :: "int \<Rightarrow> int \<Rightarrow> int" where
  "range_size low high = high - low + 1"

definition num_bytes :: "int \<Rightarrow> int \<Rightarrow> int" where
  "num_bytes low high = (bit_length (range_size low high) + 7) div 8"

text \<open>Lines 124 and 125: the number made from the bytes drawn. \<open>%\<close> by zero raises.\<close>

definition reduce :: "int \<Rightarrow> int \<Rightarrow> byte list \<Rightarrow> int outcome" where
  "reduce low high random_data =
     (let random_number = from_bytes_big random_data
      in if range_size low high = 0 then Raised ZeroDivisionError
         else Returned (low + random_number mod range_size low high))"

definition generate_random_number ::
  "sha256_fn \<Rightarrow> yarrow \<Rightarrow> real \<Rightarrow> real \<Rightarrow> byte list \<Rightarrow> int \<Rightarrow> int \<Rightarrow> (yarrow \<times> int) outcome" where
  "generate_random_number H s now now' urandom low high =
     (case generate_random_bytes H s now now' urandom (num_bytes low high) of
        Returned (s', random_data) \<Rightarrow>
          (case reduce low high random_data of
             Returned v \<Rightarrow> Returned (s', v)
           | Raised e \<Rightarrow> Raised e
           | Blocked \<Rightarrow> Blocked)
      | Raised e \<Rightarrow> Raised e
      | Blocked \<Rightarrow> Blocked)"

subsection \<open>Configuration\<close>

definition configure_body :: "int option \<Rightarrow> int option \<Rightarrow> yarrow \<Rightarrow> yarrow outcome" where
  "configure_body ri mps s =
     (let s1 = (case ri of None \<Rightarrow> s | Some r \<Rightarrow> s\<lparr>reseed_interval := r\<rparr>);
          s2 = (case mps of None \<Rightarrow> s1 | Some m \<Rightarrow> s1\<lparr>max_pool_size := m\<rparr>)
      in Returned s2)"

definition configure :: "yarrow \<Rightarrow> int option \<Rightarrow> int option \<Rightarrow> yarrow outcome" where
  "configure s ri mps = with_lock (configure_body ri mps) s"

subsection \<open>The draws\<close>

text \<open>
  The byte strings of length \<open>k\<close>, which are what \<open>generate_random_bytes(k)\<close> can return,
  and how many of those drawn for the range from \<open>low\<close> to \<open>high\<close> lines 124 and 125 turn
  into the value \<open>v\<close>.
\<close>

definition all_bytes :: "byte list" where
  "all_bytes = map of_nat [0..<256]"

definition draws :: "nat \<Rightarrow> byte list list" where
  "draws k = List.n_lists k all_bytes"

definition draws_reaching :: "int \<Rightarrow> int \<Rightarrow> int \<Rightarrow> nat" where
  "draws_reaching low high v =
     length (filter (\<lambda>d. reduce low high d = Returned v) (draws (nat (num_bytes low high))))"

subsection \<open>The chi-squared test\<close>

text \<open>
  A float is a real number or not-a-number; rounding is not modelled.
  \<open>scipy.stats.chisquare(f_obs, f_exp)\<close> is the sum of \<open>(obs - exp)\<^sup>2 / exp\<close>; with an
  expected frequency of zero the term of \<open>chi_squared_test\<close> is \<open>0 / 0\<close>, not a number.
\<close>

datatype floatval = Finite real | NaN

definition chisquare :: "real list \<Rightarrow> real list \<Rightarrow> floatval" where
  "chisquare f_obs f_exp =
     (if 0 \<in> set f_exp then NaN
      else Finite (sum_list (map2 (\<lambda>obs ex. (obs - ex)\<^sup>2 / ex) f_obs f_exp)))"

definition chi_squared_test :: "byte list \<Rightarrow> floatval" where
  "chi_squared_test data =
     (let observed = map (\<lambda>x. real (count_list data (of_nat x))) [0..<256];
          expected = replicate 256 (real (length data) / 256)
      in chisquare observed expected)"

text \<open>
  The statistic as the specification words it: over all 256 byte values, the observed
  frequency against the uniform expectation \<open>len(sample) / 256\<close>.
\<close>

definition chi_squared_uniform :: "byte list \<Rightarrow> real" where
  "chi_squared_uniform sample =
     (\<Sum>b \<in> (UNIV :: byte set).
        (real (count_list sample b) - real (length sample) / 256)\<^sup>2 / (real (length sample) / 256))"

subsection \<open>Reachable states\<close>

text \<open>
  The states a generator can be in: the state after \<open>__init__\<close>, and the state after
  any call that returns. (\<open>add_entropy_sources\<close>, \<open>add_system_entropy\<close> and
  \<open>add_user_entropy\<close> are sequences of \<open>add_entropy\<close> calls; \<open>generate_random_number\<close>
  changes the state through \<open>generate_random_bytes\<close> only; the other methods do not
  touch the state.)
\<close>

inductive reachable :: "sha256_fn \<Rightarrow> yarrow \<Rightarrow> bool" for H :: sha256_fn where
  r_init: "reachable H (Yarrow_init ri mps now)"
| r_add_entropy: "reachable H s \<Longrightarrow> add_entropy s data = Returned s' \<Longrightarrow> reachable H s'"
| r_generate_seed: "reachable H s \<Longrightarrow> generate_seed H s = Returned s' \<Longrightarrow> reachable H s'"
| r_reseed: "reachable H s \<Longrightarrow> reseed H s now now' = Returned s' \<Longrightarrow> reachable H s'"
| r_generate_random_bytes:
    "reachable H s \<Longrightarrow> generate_random_bytes H s now now' urandom n = Returned (s', out) \<Longrightarrow>
     reachable H s'"
| r_configure: "reachable H s \<Longrightarrow> configure s ri mps = Returned s' \<Longrightarrow> reachable H s'"

subsection \<open>Concrete generators used in the examples\<close>

text \<open>A stand-in for the hash in closed examples: every digest is 32 zero bytes.\<close>

definition zero_hash :: sha256_fn where
  "zero_hash m = 0"

text \<open>Another stand-in: every digest is 32 bytes \<open>0xff\<close>.\<close>

definition ones_hash :: sha256_fn where
  "ones_hash m = - 1"

text \<open>\<open>Yarrow()\<close> constructed at time 0.\<close>

definition fresh :: yarrow where
  "fresh = Yarrow_init default_reseed_interval default_max_pool_size 0"

text \<open>\<open>Yarrow()\<close> after \<open>add_entropy(bytes(range(10)))\<close>.\<close>

definition ten_bytes :: "byte list" where
  "ten_bytes = [0, 1, 2, 3, 4, 5, 6, 7, 8, 9]"

definition ten_byte_state :: yarrow where
  "ten_byte_state = fresh\<lparr>entropy_pool := ten_bytes\<rparr>"

text \<open>And after \<open>generate_seed()\<close>, with \<open>ones_hash\<close> for the hash.\<close>

definition seeded_state :: yarrow where
  "seeded_state = ten_byte_state\<lparr>seed := digest (ones_hash ten_bytes)\<rparr>"

text \<open>\<open>Yarrow(reseed_interval=100)\<close> after \<open>add_entropy\<close> of 200 zero bytes.\<close>

definition fed_state :: yarrow where
  "fed_state = (Yarrow_init 100 default_max_pool_size 0)\<lparr>entropy_pool := replicate 200 0\<rparr>"

text \<open>\<open>Yarrow(max_pool_size=0)\<close>.\<close>

definition no_capacity :: yarrow where
  "no_capacity = Yarrow_init default_reseed_interval 0 0"

text \<open>\<open>Yarrow(max_pool_size=4)\<close>.\<close>

definition capacity_four :: yarrow where
  "capacity_four = Yarrow_init default_reseed_interval 4 0"

section \<open>Basic facts\<close>

lemma length_digest: "length (digest h) = 32"
  by (simp add: digest_def)

lemma add_entropy_returns:
  "\<not> lock_held s \<Longrightarrow> \<exists>s'. add_entropy s data = Returned s' \<and> \<not> lock_held s'"
  by (simp add: add_entropy_def with_lock_def add_entropy_body_def Let_def)

lemma configure_eq:
  "\<not> lock_held s \<Longrightarrow>
   configure s ri mps =
     Returned (s\<lparr>reseed_interval := (case ri of None \<Rightarrow> reseed_interval s | Some r \<Rightarrow> r),
                 max_pool_size := (case mps of None \<Rightarrow> max_pool_size s | Some m \<Rightarrow> m)\<rparr>)"
  by (cases ri; cases mps) (simp_all add: configure_def with_lock_def configure_body_def)

lemma unlock_eq: "\<not> lock_held s \<Longrightarrow> s\<lparr>lock_held := False\<rparr> = s"
  by (cases s) simp

lemma reseed_due_locked: "reseed_due (s\<lparr>lock_held := b\<rparr>) now = reseed_due s now"
  by (simp add: reseed_due_def byte_branch_def time_branch_def)

lemma reseed_eq:
  "reseed H s now now' = (if lock_held s \<or> reseed_due s now then Blocked else Returned s)"
  by (simp add: reseed_def with_lock_def reseed_body_def generate_seed_def reseed_due_locked
      unlock_eq)

lemma generate_random_bytes_eq:
  "generate_random_bytes H s now now' urandom n =
     (if lock_held s \<or> reseed_due s now then Blocked
      else Returned (s, slice_to n (keystream H urandom [] n)))"
  by (simp add: generate_random_bytes_def reseed_eq)

lemma add_entropy_frame:
  "add_entropy s data = Returned s' \<Longrightarrow>
   seed s' = seed s \<and> reseed_interval s' = reseed_interval s \<and>
   max_pool_size s' = max_pool_size s \<and> \<not> lock_held s'"
  by (auto simp: add_entropy_def with_lock_def add_entropy_body_def Let_def split: if_splits)

lemma configure_frame:
  "configure s ri mps = Returned s' \<Longrightarrow>
   seed s' = seed s \<and> entropy_pool s' = entropy_pool s \<and> \<not> lock_held s'"
  by (cases ri; cases mps)
     (auto simp: configure_def with_lock_def configure_body_def split: if_splits)

lemma generate_seed_seed:
  "generate_seed H s = Returned s' \<Longrightarrow> seed s' = digest (H (entropy_pool s))"
  by (auto simp: generate_seed_def with_lock_def split: if_splits)

lemma seed_reachable:
  "reachable H s \<Longrightarrow> seed s = [] \<or> (\<exists>pool. seed s = digest (H pool))"
proof (induction rule: reachable.induct)
  case (r_init ri mps now)
  show ?case by (simp add: Yarrow_init_def)
next
  case (r_add_entropy s data s')
  then show ?case using add_entropy_frame by metis
next
  case (r_generate_seed s s')
  then show ?case using generate_seed_seed by blast
next
  case (r_reseed s now now' s')
  then show ?case by (simp add: reseed_eq split: if_splits)
next
  case (r_generate_random_bytes s now now' urandom n s' out)
  then show ?case by (simp add: generate_random_bytes_eq split: if_splits)
next
  case (r_configure s ri mps s')
  then show ?case using configure_frame by metis
qed

lemma add_ten_bytes: "add_entropy fresh ten_bytes = Returned ten_byte_state"
  by (simp add: add_entropy_def with_lock_def add_entropy_body_def ten_byte_state_def
      ten_bytes_def fresh_def Yarrow_init_def default_max_pool_size_def)

lemma seed_ten_bytes: "generate_seed ones_hash ten_byte_state = Returned seeded_state"
  by (simp add: generate_seed_def with_lock_def seeded_state_def ten_byte_state_def fresh_def
      Yarrow_init_def)

lemma seeded_reachable: "reachable ones_hash seeded_state"
proof -
  have "reachable ones_hash fresh"
    unfolding fresh_def by (rule r_init)
  then have "reachable ones_hash ten_byte_state"
    using add_ten_bytes by (rule r_add_entropy)
  then show ?thesis
    using seed_ten_bytes by (rule r_generate_seed)
qed

lemma reduce_one_byte:
  "k < 256 \<Longrightarrow> low \<le> high \<Longrightarrow>
   reduce low high [of_nat k] = Returned (low + int k mod (high - low + 1))"
  by (simp add: reduce_def range_size_def from_bytes_big_def unsigned_of_nat take_bit_nat_eq_self)

lemma draws_to_1: "length (filter (\<lambda>k. 1 + int k mod (6 - 1 + 1) = 1) [0..<256]) = 43"
  by code_simp

lemma draws_to_6: "length (filter (\<lambda>k. 1 + int k mod (6 - 1 + 1) = 6) [0..<256]) = 42"
  by code_simp

lemma num_bytes_1_6: "num_bytes 1 6 = 1"
  by (simp add: num_bytes_def range_size_def bit_length_def)

lemma num_bytes_5_1: "num_bytes 5 1 = 1"
  by (simp add: num_bytes_def range_size_def bit_length_def)

lemma digest_zero: "digest 0 = replicate 32 0"
  by (simp add: digest_def map_replicate_const)

lemma zero_keystream: "slice_to 1 (keystream zero_hash [] [] 1) = [0]"
  by (simp add: keystream.simps zero_hash_def digest_zero slice_to_def)

lemma fresh_unlocked: "\<not> lock_held fresh"
  by (simp add: fresh_def Yarrow_init_def)

lemma fresh_not_due: "\<not> reseed_due fresh 1"
  by (simp add: reseed_due_def byte_branch_def time_branch_def fresh_def Yarrow_init_def
      default_reseed_interval_def)

lemma map2_replicate:
  "map2 f (map g xs) (replicate (length xs) e) = map (\<lambda>x. f (g x) e) xs"
  by (induction xs) auto

lemma bij_byte: "bij_betw (of_nat :: nat \<Rightarrow> byte) {0..<256} UNIV"
proof (rule bij_betw_byWitness [where f' = unat])
  show "\<forall>x \<in> {0..<256}. unat (of_nat x :: byte) = x"
    by (simp add: unsigned_of_nat take_bit_nat_eq_self)
  show "\<forall>y \<in> (UNIV :: byte set). of_nat (unat y) = y" by simp
  show "of_nat ` {0..<256} \<subseteq> (UNIV :: byte set)" by simp
  have "unat y < 256" for y :: byte
  proof -
    have "unat y < 2 ^ LENGTH(8)" by (rule unsigned_less)
    then show ?thesis by simp
  qed
  then show "unat ` (UNIV :: byte set) \<subseteq> {0..<256}" by auto
qed

lemma sum_bytes: "(\<Sum>x = 0..<256. f (of_nat x :: byte)) = (\<Sum>b \<in> UNIV. f b)"
  by (rule sum.reindex_bij_betw [OF bij_byte])

lemma chi_squared_test_eq:
  "data \<noteq> [] \<Longrightarrow> chi_squared_test data = Finite (chi_squared_uniform data)"
proof -
  assume ne: "data \<noteq> []"
  have len: "length [0..<256] = 256" by simp
  have m: "map2 f (map g [0..<256]) (replicate 256 e) = map (\<lambda>x. f (g x) e) [0..<256]"
    for f :: "real \<Rightarrow> real \<Rightarrow> real" and g :: "nat \<Rightarrow> real" and e
    using map2_replicate [of f g "[0..<256]" e] by (simp only: len)
  have s: "sum_list (map h [0..<256]) = (\<Sum>x = 0..<256. h x)" for h :: "nat \<Rightarrow> real"
    by (simp add: interv_sum_list_conv_sum_set_nat)
  show ?thesis
    using ne
    by (simp add: chi_squared_test_def chisquare_def Let_def m s chi_squared_uniform_def
        sum_bytes [symmetric])
qed

lemma chi_one: "chi_squared_uniform [0] = 255"
proof -
  have fin: "finite (UNIV :: byte set)" by simp
  have c: "card (UNIV :: byte set) = 256" by (simp add: card_word)
  have "chi_squared_uniform [0] =
        (1 - 1 / 256)\<^sup>2 / (1 / 256) + (\<Sum>b \<in> (UNIV :: byte set) - {0}. (1 / 256 :: real))"
    unfolding chi_squared_uniform_def
    by (subst sum.remove [OF fin, of 0]) (auto simp: power2_eq_square intro!: sum.cong)
  also have "\<dots> = 255"
    using c by (simp add: power2_eq_square card_Diff_singleton)
  finally show ?thesis .
qed

lemma keystream_length: "n \<le> int (length (keystream H prng rb n))"
proof (induction H prng rb n rule: keystream.induct)
  case (1 H prng rb n)
  show ?case
  proof (cases "int (length rb) < n")
    case True
    with 1 show ?thesis by (subst keystream.simps) (simp add: Let_def)
  next
    case False
    then show ?thesis by (subst keystream.simps) simp
  qed
qed

lemma generate_random_bytes_length:
  "\<not> lock_held s \<Longrightarrow> \<not> reseed_due s now \<Longrightarrow> 0 \<le> n \<Longrightarrow>
   \<exists>out. generate_random_bytes H s now now' urandom n = Returned (s, out) \<and>
         int (length out) = n"
  using keystream_length [of n H urandom "[]"]
  by (simp add: generate_random_bytes_eq slice_to_def)

lemma generate_random_number_eq:
  "\<not> lock_held s \<Longrightarrow> \<not> reseed_due s now \<Longrightarrow> low \<le> high \<Longrightarrow>
   generate_random_number H s now now' urandom low high =
     Returned (s, low + from_bytes_big (slice_to (num_bytes low high)
                 (keystream H urandom [] (num_bytes low high))) mod (high - low + 1))"
  by (simp add: generate_random_number_def generate_random_bytes_eq reduce_def range_size_def)

lemma generate_random_number_bounds:
  "\<not> lock_held s \<Longrightarrow> \<not> reseed_due s now \<Longrightarrow> low \<le> high \<Longrightarrow>
   \<exists>v. generate_random_number H s now now' urandom low high = Returned (s, v) \<and>
       low \<le> v \<and> v \<le> high"
  by (simp add: generate_random_number_eq) (smt (verit) pos_mod_bound pos_mod_sign)

lemma generate_random_number_reversed:
  "\<not> lock_held s \<Longrightarrow> \<not> reseed_due s now \<Longrightarrow> high < low \<Longrightarrow>
   (if high = low - 1
    then generate_random_number H s now now' urandom low high = Raised ZeroDivisionError
    else \<exists>v. generate_random_number H s now now' urandom low high = Returned (s, v) \<and>
             high + 2 \<le> v \<and> v \<le> low)"
  by (simp add: generate_random_number_def generate_random_bytes_eq reduce_def range_size_def)
     (smt (verit) neg_mod_bound neg_mod_sign)

lemma most_recent_append:
  "most_recent m (most_recent m xs @ ys) = most_recent m (xs @ ys)"
proof (cases "length xs \<le> m")
  case True
  then show ?thesis by (simp add: most_recent_def)
next
  case False
  then show ?thesis by (simp add: most_recent_def add.commute)
qed

lemma length_most_recent: "length (most_recent m xs) \<le> m"
  by (simp add: most_recent_def)

lemma slice_from_negative:
  "0 < m \<Longrightarrow> slice_from (- m) xs = most_recent (nat m) xs"
proof -
  assume "0 < m"
  then have "nat (int (length xs) + - m) = length xs - nat m" by arith
  with \<open>0 < m\<close> show ?thesis by (simp add: slice_from_def most_recent_def)
qed

lemma most_recent_all: "length xs \<le> m \<Longrightarrow> most_recent m xs = xs"
  by (simp add: most_recent_def)

lemma add_entropy_step:
  assumes "\<not> lock_held s" and "1 \<le> max_pool_size s"
    and "int (length (entropy_pool s)) \<le> max_pool_size s"
  shows "add_entropy s data =
           Returned (s\<lparr>entropy_pool := most_recent (nat (max_pool_size s)) (entropy_pool s @ data)\<rparr>)"
proof (cases "data = []")
  case True
  have "most_recent (nat (max_pool_size s)) (entropy_pool s) = entropy_pool s"
    using assms(3) by (intro most_recent_all) arith
  with True assms(1) show ?thesis
    by (simp add: add_entropy_def with_lock_def add_entropy_body_def unlock_eq)
next
  case False
  let ?pool = "entropy_pool s @ data"
  have pos: "0 < max_pool_size s" using assms(2) by simp
  have small: "most_recent (nat (max_pool_size s)) ?pool = ?pool"
    if "\<not> max_pool_size s < int (length ?pool)"
    using that by (intro most_recent_all) arith
  have "add_entropy s data =
          Returned (s\<lparr>entropy_pool :=
            (if int (length ?pool) > max_pool_size s
             then slice_from (- max_pool_size s) ?pool else ?pool)\<rparr>)"
    using False assms(1)
    by (cases s) (simp add: add_entropy_def with_lock_def add_entropy_body_def Let_def)
  also have "(if int (length ?pool) > max_pool_size s
              then slice_from (- max_pool_size s) ?pool else ?pool) =
             most_recent (nat (max_pool_size s)) ?pool"
    using small by (simp only: slice_from_negative [OF pos] split: if_split) simp
  finally show ?thesis .
qed

lemma add_entropy_sources_most_recent:
  "\<not> lock_held s \<Longrightarrow> 1 \<le> max_pool_size s \<Longrightarrow>
   int (length (entropy_pool s)) \<le> max_pool_size s \<Longrightarrow>
   add_entropy_sources s sources =
     Returned (s\<lparr>entropy_pool :=
       most_recent (nat (max_pool_size s)) (entropy_pool s @ concat sources)\<rparr>)"
proof (induction sources arbitrary: s)
  case Nil
  then show ?case by (cases s) (simp add: most_recent_def)
next
  case (Cons d ds)
  let ?m = "nat (max_pool_size s)"
  let ?s1 = "s\<lparr>entropy_pool := most_recent ?m (entropy_pool s @ d)\<rparr>"
  have step: "add_entropy s d = Returned ?s1"
    using Cons.prems by (rule add_entropy_step)
  have len: "int (length (entropy_pool ?s1)) \<le> max_pool_size ?s1"
    using length_most_recent [of ?m "entropy_pool s @ d"] Cons.prems(2) by simp
  have "add_entropy_sources ?s1 ds =
          Returned (?s1\<lparr>entropy_pool :=
            most_recent (nat (max_pool_size ?s1)) (entropy_pool ?s1 @ concat ds)\<rparr>)"
    using Cons.prems len by (intro Cons.IH) simp_all
  then show ?case
    using step by (simp add: most_recent_append)
qed

lemma set_all_bytes: "set all_bytes = UNIV"
  using bij_betw_imp_surj_on [OF bij_byte] by (simp add: all_bytes_def)

lemma distinct_all_bytes: "distinct all_bytes"
  using bij_betw_imp_inj_on [OF bij_byte] by (simp add: all_bytes_def distinct_map)

lemma set_draws: "set (draws k) = {d. length d = k}"
  by (simp add: draws_def set_n_lists set_all_bytes)

lemma distinct_draws: "distinct (draws k)"
  by (simp add: draws_def distinct_n_lists distinct_all_bytes)

lemma count_draws: "length (filter P (draws k)) = card {d. length d = k \<and> P d}"
proof -
  have "{x. P x} \<inter> set (draws k) = {d. length d = k \<and> P d}"
    by (auto simp: set_draws)
  then show ?thesis
    by (simp add: distinct_length_filter [OF distinct_draws])
qed

lemma from_bytes_big_snoc: "from_bytes_big (d @ [b]) = from_bytes_big d * 256 + uint b"
  by (simp add: from_bytes_big_def)

lemma uint_byte: "0 \<le> uint (b :: byte) \<and> uint b < 256"
  using uint_lt2p [of b] by simp

lemma from_bytes_big_bounds: "0 \<le> from_bytes_big d \<and> from_bytes_big d < 256 ^ length d"
proof (induction d rule: rev_induct)
  case Nil
  show ?case by (simp add: from_bytes_big_def)
next
  case (snoc b d)
  then show ?case
    using uint_byte [of b] by (simp add: from_bytes_big_snoc)
qed

lemma from_bytes_big_inj:
  "length d = length e \<Longrightarrow> from_bytes_big d = from_bytes_big e \<Longrightarrow> d = e"
proof (induction d arbitrary: e rule: rev_induct)
  case Nil
  then show ?case by simp
next
  case (snoc b d)
  from snoc.prems(1) obtain e' c where e: "e = e' @ [c]"
    by (cases e rule: rev_cases) auto
  have eq: "from_bytes_big d * 256 + uint b = from_bytes_big e' * 256 + uint c"
    using snoc.prems(2) by (simp add: e from_bytes_big_snoc)
  have "uint b = (from_bytes_big d * 256 + uint b) mod 256"
    using uint_byte [of b] by simp
  also have "\<dots> = (from_bytes_big e' * 256 + uint c) mod 256"
    by (simp only: eq)
  also have "\<dots> = uint c"
    using uint_byte [of c] by simp
  finally have u: "uint b = uint c" .
  then have "from_bytes_big d = from_bytes_big e' \<and> uint b = uint c"
    using eq by simp
  moreover have "length d = length e'"
    using snoc.prems(1) by (simp add: e)
  ultimately show ?case
    using snoc.IH [of e'] by (simp add: e word_uint_eq_iff)
qed

lemma from_bytes_big_surj:
  "0 \<le> n \<Longrightarrow> n < 256 ^ k \<Longrightarrow> \<exists>d. length d = k \<and> from_bytes_big d = n"
proof (induction k arbitrary: n)
  case 0
  then show ?case by (simp add: from_bytes_big_def)
next
  case (Suc k)
  have "0 \<le> n div 256" using Suc.prems(1) by simp
  moreover have "n div 256 < 256 ^ k" using Suc.prems by simp
  ultimately obtain d where d: "length d = k" "from_bytes_big d = n div 256"
    using Suc.IH by blast
  let ?b = "word_of_int (n mod 256) :: byte"
  have "uint ?b = n mod 256" by (simp add: uint_word_of_int)
  then have "from_bytes_big (d @ [?b]) = n"
    by (simp add: from_bytes_big_snoc d)
  with d show ?case
    by (intro exI [of _ "d @ [?b]"]) simp
qed

lemma card_draws_numbers:
  "card {d. length d = k \<and> Q (from_bytes_big d)} = card {n. 0 \<le> n \<and> n < 256 ^ k \<and> Q n}"
proof -
  have inj: "inj_on from_bytes_big {d. length d = k \<and> Q (from_bytes_big d)}"
    by (rule inj_onI) (simp add: from_bytes_big_inj)
  have "from_bytes_big ` {d. length d = k \<and> Q (from_bytes_big d)} =
        {n. 0 \<le> n \<and> n < 256 ^ k \<and> Q n}"
  proof (rule set_eqI, rule iffI)
    fix n
    assume "n \<in> from_bytes_big ` {d. length d = k \<and> Q (from_bytes_big d)}"
    then show "n \<in> {n. 0 \<le> n \<and> n < 256 ^ k \<and> Q n}"
      using from_bytes_big_bounds by auto
  next
    fix n
    assume "n \<in> {n. 0 \<le> n \<and> n < 256 ^ k \<and> Q n}"
    then have n: "0 \<le> n" "n < 256 ^ k" "Q n" by simp_all
    then obtain d where "length d = k" "from_bytes_big d = n"
      using from_bytes_big_surj by blast
    with n show "n \<in> from_bytes_big ` {d. length d = k \<and> Q (from_bytes_big d)}"
      by auto
  qed
  then show ?thesis
    using card_image [OF inj] by simp
qed

lemma residues_unequal:
  fixes w N :: int
  assumes w: "0 < w" and N: "0 < N" and nd: "\<not> w dvd N"
  shows "card {n. 0 \<le> n \<and> n < N \<and> n mod w = w - 1} < card {n. 0 \<le> n \<and> n < N \<and> n mod w = 0}"
proof -
  let ?A = "{n. 0 \<le> n \<and> n < N \<and> n mod w = w - 1}"
  let ?B = "{n. 0 \<le> n \<and> n < N \<and> n mod w = 0}"
  let ?x = "w * (N div w)"
  have fin: "finite ?B"
    by (rule finite_subset [of _ "{0..<N}"]) auto
  have Nmod0: "N mod w \<noteq> 0" using nd by (simp add: dvd_eq_mod_eq_0)
  have Nmod: "0 < N mod w" "N mod w < w"
    using Nmod0 pos_mod_sign [OF w, of N] pos_mod_bound [OF w, of N] by linarith+
  have Neq: "?x + N mod w = N" by simp
  have "0 \<le> N div w" using w N by (simp add: pos_imp_zdiv_nonneg_iff)
  then have x0: "0 \<le> ?x" using w by simp
  have xlt: "?x < N" using Neq Nmod(1) by linarith
  have xB: "?x \<in> ?B"
    using x0 xlt by simp
  have sub: "(\<lambda>n. n - (w - 1)) ` ?A \<subseteq> ?B - {?x}"
  proof
    fix m
    assume "m \<in> (\<lambda>n. n - (w - 1)) ` ?A"
    then obtain n where n: "0 \<le> n" "n < N" "n mod w = w - 1" and m: "m = n - (w - 1)"
      by auto
    have neq: "w * (n div w) + (w - 1) = n"
      using mult_div_mod_eq [of w n] n(3) by simp
    have "0 \<le> n div w" using w n(1) by (simp add: pos_imp_zdiv_nonneg_iff)
    then have q0: "0 \<le> w * (n div w)" using w by simp
    have m_eq: "m = w * (n div w)" using neq m by simp
    have "m mod w = 0" by (simp add: m_eq)
    moreover have "0 \<le> m" using q0 m_eq by simp
    moreover have "m < N" using m n(2) w by simp
    moreover have "m \<noteq> ?x"
    proof
      assume "m = ?x"
      then have "n = ?x + (w - 1)" using m by simp
      then show False using Neq Nmod n(2) by linarith
    qed
    ultimately show "m \<in> ?B - {?x}" by simp
  qed
  have "inj_on (\<lambda>n. n - (w - 1)) ?A" by (rule inj_onI) simp
  then have "card ?A \<le> card (?B - {?x})"
    using sub fin by (intro card_inj_on_le [where f = "\<lambda>n. n - (w - 1)"]) auto
  also have "\<dots> < card ?B"
    using xB fin by (intro card_Diff1_less) 
  finally show ?thesis .
qed

lemma draws_reaching_card:
  assumes "low \<le> high"
  shows "draws_reaching low high v =
         card {n. 0 \<le> n \<and> n < 256 ^ nat (num_bytes low high) \<and> low + n mod (high - low + 1) = v}"
proof -
  have r: "reduce low high d = Returned v \<longleftrightarrow> low + from_bytes_big d mod (high - low + 1) = v"
    for d
    using assms by (simp add: reduce_def range_size_def)
  show ?thesis
    unfolding draws_reaching_def count_draws r
    by (rule card_draws_numbers [of _ "\<lambda>n. low + n mod (high - low + 1) = v"])
qed

lemma draws_unequal:
  assumes "low \<le> high" and "\<not> (high - low + 1) dvd 256 ^ nat (num_bytes low high)"
  shows "draws_reaching low high high < draws_reaching low high low"
proof -
  let ?w = "high - low + 1"
  let ?N = "256 ^ nat (num_bytes low high) :: int"
  have w: "0 < ?w" using assms(1) by simp
  have N: "0 < ?N" by simp
  have "{n. 0 \<le> n \<and> n < ?N \<and> low + n mod ?w = high} = {n. 0 \<le> n \<and> n < ?N \<and> n mod ?w = ?w - 1}"
    by auto
  moreover have "{n. 0 \<le> n \<and> n < ?N \<and> low + n mod ?w = low} = {n. 0 \<le> n \<and> n < ?N \<and> n mod ?w = 0}"
    by auto
  ultimately show ?thesis
    using residues_unequal [OF w N assms(2)] by (simp add: draws_reaching_card [OF assms(1)])
qed

lemma mask_byte: "ucast (mask 8 :: 256 word) = (255 :: byte)"
  by (simp add: mask_eq_exp_minus_1)

lemma take_digest_ones: "take 1 (digest (- 1)) = [255]"
  by (simp add: digest_def take_map mask_byte)

lemma digest_nonempty: "digest h \<noteq> []"
  using length_digest [of h] by auto

lemma ones_keystream: "slice_to 1 (keystream ones_hash [] [] 1) = [255]"
  using take_digest_ones
  by (simp add: keystream.simps ones_hash_def slice_to_def Let_def digest_nonempty)

lemma draws_one: "draws (Suc 0) = map (\<lambda>k. [of_nat k]) [0..<256]"
  by (simp add: draws_def all_bytes_def comp_def)

lemma draws_reaching_one_byte:
  "low \<le> high \<Longrightarrow> num_bytes low high = 1 \<Longrightarrow>
   draws_reaching low high v =
     length (filter (\<lambda>k. low + int k mod (high - low + 1) = v) [0..<256])"
  unfolding draws_reaching_def
  by (simp add: draws_one filter_map comp_def, rule arg_cong [where f = length], rule filter_cong)
     (simp_all add: reduce_one_byte)

section \<open>The claims\<close>

text \<open>
  C10. In every reachable state the seed is the initial empty byte string or a digest,
  32 bytes long; so when \<open>reseed_interval\<close> is above 32 the byte-count branch of the
  reseed condition is false, and the condition holds exactly when the elapsed-time branch
  does.
\<close>

theorem seed_empty_or_digest:
  "reachable H s \<Longrightarrow>
   (seed s = [] \<or> (\<exists>pool. seed s = digest (H pool))) \<and>
   (length (seed s) = 0 \<or> length (seed s) = 32) \<and>
   (32 < reseed_interval s \<longrightarrow>
      \<not> byte_branch s \<and> (\<forall>now. reseed_due s now = time_branch s now))"
proof -
  assume r: "reachable H s"
  then have sd: "seed s = [] \<or> (\<exists>pool. seed s = digest (H pool))"
    by (rule seed_reachable)
  then have len: "length (seed s) = 0 \<or> length (seed s) = 32"
    by (auto simp: length_digest)
  have "\<not> byte_branch s" if "32 < reseed_interval s"
    using len that by (auto simp: byte_branch_def)
  then show ?thesis
    using sd len by (simp add: reseed_due_def)
qed

theorem seed_empty_or_digest_witness:
  "reachable ones_hash seeded_state \<and> seed seeded_state = digest (ones_hash ten_bytes) \<and>
   length (seed seeded_state) = 32 \<and> 32 < reseed_interval seeded_state \<and>
   \<not> byte_branch seeded_state \<and>
   reseed_due seeded_state 5 = time_branch seeded_state 5 \<and>
   \<not> reseed_due seeded_state 5 \<and> reseed_due seeded_state 10000"
proof -
  have i: "32 < reseed_interval seeded_state"
    by (simp add: seeded_state_def ten_byte_state_def fresh_def Yarrow_init_def
        default_reseed_interval_def)
  have s: "seed seeded_state = digest (ones_hash ten_bytes)"
    by (simp add: seeded_state_def)
  have t: "\<not> time_branch seeded_state 5" "time_branch seeded_state 10000"
    by (simp_all add: time_branch_def seeded_state_def ten_byte_state_def fresh_def
        Yarrow_init_def default_reseed_interval_def)
  show ?thesis
    using seed_empty_or_digest [OF seeded_reachable] seeded_reachable i s t
    by (simp add: length_digest)
qed

text \<open>
  C9, as amended. \<open>configure\<close> stores the values it is given and evicts nothing: when it
  returns, \<open>max_pool_size\<close> is the new value and the pool is the pool it was called with.
\<close>

theorem configure_keeps_pool:
  "\<not> lock_held s \<Longrightarrow>
   \<exists>s'. configure s ri mps = Returned s' \<and> entropy_pool s' = entropy_pool s \<and>
        max_pool_size s' = (case mps of None \<Rightarrow> max_pool_size s | Some m \<Rightarrow> m) \<and>
        reseed_interval s' = (case ri of None \<Rightarrow> reseed_interval s | Some r \<Rightarrow> r)"
  by (simp add: configure_eq)

theorem configure_keeps_pool_witness:
  "\<not> lock_held ten_byte_state \<and>
   (\<exists>s'. configure ten_byte_state None (Some 2) = Returned s' \<and>
         entropy_pool s' = ten_bytes \<and> max_pool_size s' = 2 \<and>
         max_pool_size s' < int (length (entropy_pool s')))"
proof -
  have u: "\<not> lock_held ten_byte_state"
    by (simp add: ten_byte_state_def fresh_def Yarrow_init_def)
  obtain s' where c: "configure ten_byte_state None (Some 2) = Returned s'"
    and p: "entropy_pool s' = entropy_pool ten_byte_state"
    and m: "max_pool_size s' = (case Some 2 of None \<Rightarrow> max_pool_size ten_byte_state | Some m \<Rightarrow> m)"
    using configure_keeps_pool [OF u, of None "Some 2"] by blast
  have "entropy_pool s' = ten_bytes"
    using p by (simp add: ten_byte_state_def)
  moreover have "max_pool_size s' = 2"
    using m by simp
  moreover have "length ten_bytes = 10"
    by (simp add: ten_bytes_def)
  ultimately show ?thesis
    using u c by auto
qed

text \<open>
  C9 as stated fails: \<open>configure(max_pool_size=2)\<close> on a pool of 10 bytes returns with
  the 10 bytes still in the pool.
\<close>

theorem configure_no_eviction_counterexample:
  "add_entropy fresh ten_bytes = Returned ten_byte_state \<and>
   configure ten_byte_state None (Some 2) = Returned (ten_byte_state\<lparr>max_pool_size := 2\<rparr>) \<and>
   entropy_pool (ten_byte_state\<lparr>max_pool_size := 2\<rparr>) = ten_bytes \<and>
   length ten_bytes = 10"
  by (simp add: add_entropy_def with_lock_def add_entropy_body_def configure_def
      configure_body_def ten_byte_state_def ten_bytes_def fresh_def Yarrow_init_def
      default_max_pool_size_def)

text \<open>
  C2, as amended. The decision compares the one configured \<open>reseed_interval\<close> with the
  length of the seed and with the time since the last reseed: when both are below it,
  \<open>reseed\<close> returns and leaves the state as it was.
\<close>

theorem reseed_not_due:
  "\<not> lock_held s \<Longrightarrow> int (length (seed s)) < reseed_interval s \<Longrightarrow>
   now - last_reseed_time s < real_of_int (reseed_interval s) \<Longrightarrow>
   reseed H s now now' = Returned s"
  by (simp add: reseed_eq reseed_due_def byte_branch_def time_branch_def)

theorem reseed_not_due_witness:
  "\<not> lock_held fed_state \<and> int (length (seed fed_state)) < reseed_interval fed_state \<and>
   1 - last_reseed_time fed_state < real_of_int (reseed_interval fed_state) \<and>
   reseed zero_hash fed_state 1 1 = Returned fed_state"
proof -
  have a: "\<not> lock_held fed_state"
    by (simp add: fed_state_def Yarrow_init_def)
  have b: "int (length (seed fed_state)) < reseed_interval fed_state"
    by (simp add: fed_state_def Yarrow_init_def)
  have c: "1 - last_reseed_time fed_state < real_of_int (reseed_interval fed_state)"
    by (simp add: fed_state_def Yarrow_init_def)
  show ?thesis
    using reseed_not_due [OF a b c, of zero_hash 1] a b c by simp
qed

text \<open>
  C2 as stated fails: with a threshold of 100, after 200 bytes have gone into the pool
  and no reseed has been done, the request of one second later does not reseed.
\<close>

theorem reseed_ignores_pool_bytes_counterexample:
  "add_entropy (Yarrow_init 100 default_max_pool_size 0) (replicate 200 0) = Returned fed_state \<and>
   reseed_interval fed_state = 100 \<and> length (entropy_pool fed_state) = 200 \<and>
   reseed zero_hash fed_state 1 1 = Returned fed_state \<and> seed fed_state = []"
  by (simp add: add_entropy_def with_lock_def add_entropy_body_def fed_state_def
      Yarrow_init_def default_max_pool_size_def reseed_eq reseed_due_def byte_branch_def
      time_branch_def)

text \<open>
  C6 fails on the code: with the default configuration, a request made 10000 seconds
  after construction finds the reseed due, and \<open>reseed\<close> calls \<open>generate_seed\<close> while it
  holds the lock that \<open>generate_seed\<close> acquires. The call never returns.
\<close>

theorem generate_random_bytes_blocks:
  "generate_random_bytes H fresh 10000 now' urandom n = Blocked"
  by (simp add: generate_random_bytes_eq reseed_due_def time_branch_def fresh_def
      Yarrow_init_def default_reseed_interval_def)

text \<open>C7 fails on the code in the same way: the request for a number never returns.\<close>

theorem generate_random_number_blocks:
  "generate_random_number H fresh 10000 now' urandom low high = Blocked"
  by (simp add: generate_random_number_def generate_random_bytes_eq reseed_due_def
      time_branch_def fresh_def Yarrow_init_def default_reseed_interval_def)

text \<open>
  C3 fails on the code: with \<open>max_pool_size = 0\<close> the slice \<open>entropy_pool[-0:]\<close> is the
  whole pool, so nothing is evicted.
\<close>

theorem add_entropy_zero_capacity:
  "add_entropy no_capacity [0x61, 0x62] = Returned (no_capacity\<lparr>entropy_pool := [0x61, 0x62]\<rparr>)"
  by (simp add: add_entropy_def with_lock_def add_entropy_body_def no_capacity_def
      Yarrow_init_def slice_from_def)

text \<open>
  C1 fails on the code: the chain starts from the bytes \<open>os.urandom(32)\<close> returns in the
  call. The output does not depend on the seed or the pool, and when a reseed is due the
  call does not return.
\<close>

theorem generate_random_bytes_from_urandom:
  "generate_random_bytes H s now now' urandom n =
     (if lock_held s \<or> reseed_due s now then Blocked
      else Returned (s, slice_to n (keystream H urandom [] n)))"
  by (rule generate_random_bytes_eq)

text \<open>
  C4, as amended. For \<open>low \<le> high\<close> the number is made from one draw by raw modulo
  reduction: \<open>low\<close> plus the big-endian value of the bytes drawn, modulo the width of the
  range. Nothing is drawn again, and whenever the width does not divide the number of
  byte strings that can be drawn, more of them give \<open>low\<close> than give \<open>high\<close>.
\<close>

theorem generate_random_number_modulo:
  "\<not> lock_held s \<Longrightarrow> \<not> reseed_due s now \<Longrightarrow> low \<le> high \<Longrightarrow>
   generate_random_number H s now now' urandom low high =
     Returned (s, low + from_bytes_big (slice_to (num_bytes low high)
                 (keystream H urandom [] (num_bytes low high))) mod (high - low + 1)) \<and>
   (\<not> (high - low + 1) dvd 256 ^ nat (num_bytes low high) \<longrightarrow>
      draws_reaching low high high < draws_reaching low high low)"
  by (simp add: generate_random_number_eq draws_unequal)

theorem generate_random_number_modulo_witness:
  "\<not> lock_held fresh \<and> \<not> reseed_due fresh 1 \<and> (1 :: int) \<le> 6 \<and>
   generate_random_number ones_hash fresh 1 1 [] 1 6 = Returned (fresh, 4) \<and>
   \<not> (6 :: int) dvd 256 ^ nat (num_bytes 1 6) \<and>
   draws_reaching 1 6 6 < draws_reaching 1 6 1"
proof -
  have c: "(1 :: int) \<le> 6" by simp
  have nd: "\<not> (6 :: int) dvd 256 ^ nat (num_bytes 1 6)"
    by (simp add: num_bytes_1_6)
  show ?thesis
    using generate_random_number_modulo [OF fresh_unlocked fresh_not_due c, of ones_hash 1 "[]"] nd
    by (simp add: fresh_unlocked fresh_not_due num_bytes_1_6 ones_keystream from_bytes_big_def)
qed

text \<open>
  C4 as stated fails: for the range 1 to 6 one byte is drawn, and of the 256 bytes 43 give
  the value 1 and 42 give the value 6.
\<close>

theorem unequal_draws_counterexample:
  "num_bytes 1 6 = 1 \<and> draws_reaching 1 6 1 = 43 \<and> draws_reaching 1 6 6 = 42"
  using draws_to_1 draws_to_6 by (simp add: draws_reaching_one_byte num_bytes_1_6)

text \<open>
  C5, as amended. For \<open>high < low\<close>, and no reseed due: the call raises
  \<open>ZeroDivisionError\<close> when \<open>high = low - 1\<close>, and otherwise returns a value between
  \<open>high + 2\<close> and \<open>low\<close>.
\<close>

theorem generate_random_number_reversed_range:
  "\<not> lock_held s \<Longrightarrow> \<not> reseed_due s now \<Longrightarrow> high < low \<Longrightarrow>
   (if high = low - 1
    then generate_random_number H s now now' urandom low high = Raised ZeroDivisionError
    else \<exists>v. generate_random_number H s now now' urandom low high = Returned (s, v) \<and>
             high + 2 \<le> v \<and> v \<le> low)"
  by (rule generate_random_number_reversed)

theorem generate_random_number_reversed_range_witness:
  "\<not> lock_held fresh \<and> \<not> reseed_due fresh 1 \<and> (1 :: int) < 5 \<and> (4 :: int) < 5 \<and>
   (\<exists>v. generate_random_number zero_hash fresh 1 1 [] 5 1 = Returned (fresh, v) \<and>
        3 \<le> v \<and> v \<le> 5) \<and>
   generate_random_number zero_hash fresh 1 1 [] 5 4 = Raised ZeroDivisionError"
proof -
  have c: "(1 :: int) < 5" by simp
  have d: "(4 :: int) < 5" by simp
  show ?thesis
    using generate_random_number_reversed_range
            [OF fresh_unlocked fresh_not_due c, of zero_hash 1 "[]"]
          generate_random_number_reversed_range
            [OF fresh_unlocked fresh_not_due d, of zero_hash 1 "[]"]
    by (simp add: fresh_unlocked fresh_not_due)
qed

text \<open>
  C5 as stated fails: \<open>generate_random_number(5, 1)\<close> draws one byte and returns a number;
  with the byte 7 drawn it is \<open>5 + 7 % -3 = 3\<close>.
\<close>

theorem reversed_range_returns_counterexample:
  "num_bytes 5 1 = 1 \<and> reduce 5 1 [7] = Returned 3 \<and>
   generate_random_number zero_hash fresh 1 1 [] 5 1 = Returned (fresh, 5)"
  by (simp add: num_bytes_5_1 reduce_def range_size_def from_bytes_big_def
      generate_random_number_def generate_random_bytes_eq fresh_unlocked fresh_not_due
      zero_keystream)

text \<open>
  C8, as amended. \<open>chi_squared_test\<close> has no minimum length: for every sample that is not
  empty it returns the chi-squared statistic of the observed byte frequencies against
  the uniform expectation \<open>len(sample) / 256\<close> over all 256 byte values.
\<close>

theorem chi_squared_test_statistic:
  "data \<noteq> [] \<Longrightarrow> chi_squared_test data = Finite (chi_squared_uniform data)"
  by (rule chi_squared_test_eq)

theorem chi_squared_test_statistic_witness:
  "[1, 2 :: byte] \<noteq> [] \<and> chi_squared_test [1, 2] = Finite (chi_squared_uniform [1, 2])"
proof -
  have n: "[1, 2 :: byte] \<noteq> []" by simp
  show ?thesis
    using chi_squared_test_statistic [OF n] by simp
qed

text \<open>
  C8 as stated fails: on a sample of one byte \<open>chi_squared_test\<close> returns the statistic
  255.
\<close>

theorem short_sample_counterexample:
  "length [0 :: byte] \<le> 256 \<and> chi_squared_test [0] = Finite 255"
  by (simp add: chi_squared_test_eq chi_one)

section \<open>Further properties\<close>

text \<open>
  When the lock is free and no reseed is due, \<open>generate_random_bytes(n)\<close> with \<open>n \<ge> 0\<close>
  returns exactly \<open>n\<close> bytes and leaves the state as it was.
\<close>

theorem generate_random_bytes_exact_length:
  "\<not> lock_held s \<Longrightarrow> \<not> reseed_due s now \<Longrightarrow> 0 \<le> n \<Longrightarrow>
   \<exists>out. generate_random_bytes H s now now' urandom n = Returned (s, out) \<and>
         int (length out) = n"
  by (rule generate_random_bytes_length)

theorem generate_random_bytes_exact_length_witness:
  "\<not> lock_held fresh \<and> \<not> reseed_due fresh 1 \<and> (0 :: int) \<le> 10000 \<and>
   (\<exists>out. generate_random_bytes zero_hash fresh 1 1 [] 10000 = Returned (fresh, out) \<and>
          int (length out) = 10000)"
proof -
  have c: "(0 :: int) \<le> 10000" by simp
  show ?thesis
    using generate_random_bytes_exact_length [OF fresh_unlocked fresh_not_due c, of zero_hash 1 "[]"]
    by (simp add: fresh_unlocked fresh_not_due)
qed

text \<open>
  When the lock is free and no reseed is due, \<open>generate_random_number(low, high)\<close> with
  \<open>low \<le> high\<close> returns a number between \<open>low\<close> and \<open>high\<close>.
\<close>

theorem generate_random_number_in_range:
  "\<not> lock_held s \<Longrightarrow> \<not> reseed_due s now \<Longrightarrow> low \<le> high \<Longrightarrow>
   \<exists>v. generate_random_number H s now now' urandom low high = Returned (s, v) \<and>
       low \<le> v \<and> v \<le> high"
  by (rule generate_random_number_bounds)

theorem generate_random_number_in_range_witness:
  "\<not> lock_held fresh \<and> \<not> reseed_due fresh 1 \<and> (1 :: int) \<le> 6 \<and>
   (\<exists>v. generate_random_number zero_hash fresh 1 1 [] 1 6 = Returned (fresh, v) \<and>
        1 \<le> v \<and> v \<le> 6)"
proof -
  have c: "(1 :: int) \<le> 6" by simp
  show ?thesis
    using generate_random_number_in_range [OF fresh_unlocked fresh_not_due c, of zero_hash 1 "[]"]
    by (simp add: fresh_unlocked fresh_not_due)
qed

text \<open>
  With a capacity of at least one, a pool within its capacity and the lock free, any
  sequence of \<open>add_entropy\<close> calls returns with the pool holding the most recent
  \<open>max_pool_size\<close> bytes of everything added, so never more than \<open>max_pool_size\<close>.
\<close>

theorem add_entropy_sources_ring_buffer:
  "\<not> lock_held s \<Longrightarrow> 1 \<le> max_pool_size s \<Longrightarrow>
   int (length (entropy_pool s)) \<le> max_pool_size s \<Longrightarrow>
   \<exists>s'. add_entropy_sources s sources = Returned s' \<and>
        entropy_pool s' = most_recent (nat (max_pool_size s)) (entropy_pool s @ concat sources) \<and>
        int (length (entropy_pool s')) \<le> max_pool_size s"
proof -
  assume a: "\<not> lock_held s" and b: "1 \<le> max_pool_size s"
    and c: "int (length (entropy_pool s)) \<le> max_pool_size s"
  have "int (length (most_recent (nat (max_pool_size s)) (entropy_pool s @ concat sources)))
          \<le> max_pool_size s"
    using length_most_recent [of "nat (max_pool_size s)" "entropy_pool s @ concat sources"] b
    by simp
  then show ?thesis
    by (simp add: add_entropy_sources_most_recent [OF a b c])
qed

theorem add_entropy_sources_ring_buffer_witness:
  "\<not> lock_held capacity_four \<and> 1 \<le> max_pool_size capacity_four \<and>
   int (length (entropy_pool capacity_four)) \<le> max_pool_size capacity_four \<and>
   (\<exists>s'. add_entropy_sources capacity_four [[0x61, 0x62], [0x63, 0x64, 0x65, 0x66]] = Returned s' \<and>
         entropy_pool s' = [0x63, 0x64, 0x65, 0x66])"
proof -
  have a: "\<not> lock_held capacity_four"
    by (simp add: capacity_four_def Yarrow_init_def)
  have b: "1 \<le> max_pool_size capacity_four"
    by (simp add: capacity_four_def Yarrow_init_def)
  have c: "int (length (entropy_pool capacity_four)) \<le> max_pool_size capacity_four"
    by (simp add: capacity_four_def Yarrow_init_def)
  have m: "max_pool_size capacity_four = 4" and p: "entropy_pool capacity_four = []"
    by (simp_all add: capacity_four_def Yarrow_init_def)
  obtain s' where
    r: "add_entropy_sources capacity_four [[0x61, 0x62], [0x63, 0x64, 0x65, 0x66]] = Returned s'"
    and e: "entropy_pool s' =
      most_recent (nat (max_pool_size capacity_four))
        (entropy_pool capacity_four @ concat [[0x61, 0x62], [0x63, 0x64, 0x65, 0x66]])"
    using add_entropy_sources_ring_buffer [OF a b c] by blast
  have "entropy_pool s' = [0x63, 0x64, 0x65, 0x66]"
    using e by (simp add: m p most_recent_def)
  with r a b c show ?thesis by blast
qed

end
